theory Spec2Isabelle
  imports Complex_Main "HOL-Library.Word"
begin

section \<open>Gradient remapping through an erosion texture (erosion/remap\_gradient.py)\<close>

text \<open>
  The program works on numpy arrays of 64-bit floats. The embedding computes with
  the real numbers instead: every finite float is the real it denotes, and no rounding
  of the arithmetic is modelled. The two special values that the program can produce
  are modelled where they arise: the marker NaN of an unresolved table entry is
  \<open>None\<close>, and the quotient of a division by zero is a value of \<open>xfloat\<close>.
\<close>

subsection \<open>Arrays, indexing and errors\<close>

text \<open>
  \<open>IndexError\<close> is what numpy raises on an index outside an axis and on an index
  into an axis that the array does not have; \<open>ValueError\<close> is what \<open>np.interp\<close>
  raises on an empty list of sample points.
\<close>

datatype error = IndexError | ValueError

text \<open>
  An image loaded by \<open>np.array(Image.open(...))\<close> has two axes (height, width) or
  three (height, width, channels). An array is its shape and its rows: a list of rows,
  a row a list of pixels, a pixel (of a three-axis array) a list of channel values.
  The functions below read an element only at an index inside the shape.
\<close>

datatype 'a ndarray =
    Arr2 nat nat "'a list list"
  | Arr3 nat nat nat "'a list list list"

fun ndim :: "'a ndarray \<Rightarrow> nat" where
  "ndim (Arr2 h w rows) = 2"
| "ndim (Arr3 h w c rows) = 3"

fun shape_h :: "'a ndarray \<Rightarrow> nat" where
  "shape_h (Arr2 h w rows) = h"
| "shape_h (Arr3 h w c rows) = h"

fun shape_w :: "'a ndarray \<Rightarrow> nat" where
  "shape_w (Arr2 h w rows) = w"
| "shape_w (Arr3 h w c rows) = w"

text \<open>\<open>channels = gradient.shape[2] if gradient.ndim == 3 else 1\<close>\<close>

fun channels :: "'a ndarray \<Rightarrow> nat" where
  "channels (Arr2 h w rows) = 1"
| "channels (Arr3 h w c rows) = c"

text \<open>The element at row \<open>y\<close>, column \<open>x\<close>, channel \<open>k\<close> (a two-axis array has no channel index).\<close>

fun elem :: "'a ndarray \<Rightarrow> nat \<Rightarrow> nat \<Rightarrow> nat \<Rightarrow> 'a" where
  "elem (Arr2 h w rows) y x k = rows ! y ! x"
| "elem (Arr3 h w c rows) y x k = rows ! y ! x ! k"

text \<open>An elementwise operation: the same shape, the function applied to every element.\<close>

fun map_ndarray :: "('a \<Rightarrow> 'b) \<Rightarrow> 'a ndarray \<Rightarrow> 'b ndarray" where
  "map_ndarray g (Arr2 h w rows) =
     Arr2 h w (map (\<lambda>y. map (\<lambda>x. g (rows ! y ! x)) [0..<w]) [0..<h])"
| "map_ndarray g (Arr3 h w c rows) =
     Arr3 h w c (map (\<lambda>y. map (\<lambda>x. map (\<lambda>k. g (rows ! y ! x ! k)) [0..<c]) [0..<w]) [0..<h])"

text \<open>
  An integer index into an axis of size \<open>n\<close>: numpy counts a negative index from the
  end and raises IndexError outside \<open>[-n, n)\<close>.
\<close>

definition axis_index :: "nat \<Rightarrow> int \<Rightarrow> error + nat" where
  "axis_index n i =
     (if 0 \<le> i \<and> i < int n then Inr (nat i)
      else if - int n \<le> i \<and> i < 0 then Inr (nat (int n + i))
      else Inl IndexError)"

text \<open>\<open>img[y, x]\<close>: the pixel, as the list of its channel values.\<close>

fun getitem :: "'a ndarray \<Rightarrow> int \<Rightarrow> int \<Rightarrow> error + 'a list" where
  "getitem (Arr2 h w rows) y x =
     (case axis_index h y of Inl e \<Rightarrow> Inl e | Inr i \<Rightarrow>
      case axis_index w x of Inl e \<Rightarrow> Inl e | Inr j \<Rightarrow> Inr [rows ! i ! j])"
| "getitem (Arr3 h w c rows) y x =
     (case axis_index h y of Inl e \<Rightarrow> Inl e | Inr i \<Rightarrow>
      case axis_index w x of Inl e \<Rightarrow> Inl e | Inr j \<Rightarrow>
        Inr (map (\<lambda>k. rows ! i ! j ! k) [0..<c]))"

text \<open>\<open>table[i]\<close> on a one-axis array.\<close>

definition getitem1 :: "'a list \<Rightarrow> int \<Rightarrow> error + 'a" where
  "getitem1 xs i = (case axis_index (length xs) i of Inl e \<Rightarrow> Inl e | Inr j \<Rightarrow> Inr (xs ! j))"

text \<open>\<open>arr[:, :, k].flatten()\<close>: the channel \<open>k\<close> of every pixel, row by row.\<close>

fun channel_flat :: "'a ndarray \<Rightarrow> nat \<Rightarrow> error + 'a list" where
  "channel_flat (Arr2 h w rows) k = Inl IndexError"
| "channel_flat (Arr3 h w c rows) k =
     (if k < c then Inr (map (\<lambda>(y, x). rows ! y ! x ! k) (List.product [0..<h] [0..<w]))
      else Inl IndexError)"

text \<open>A vectorised operation fails when one of its elements fails.\<close>

fun collect :: "(error + 'a) list \<Rightarrow> error + 'a list" where
  "collect [] = Inr []"
| "collect (r # rs) =
     (case r of Inl e \<Rightarrow> Inl e | Inr v \<Rightarrow>
      case collect rs of Inl e \<Rightarrow> Inl e | Inr vs \<Rightarrow> Inr (v # vs))"

subsection \<open>The numpy operations the program calls\<close>

definition np_clip :: "real \<Rightarrow> real \<Rightarrow> real \<Rightarrow> real" where
  "np_clip a lo hi = min (max a lo) hi"

definition np_clip_int :: "int \<Rightarrow> int \<Rightarrow> int \<Rightarrow> int" where
  "np_clip_int a lo hi = min (max a lo) hi"

text \<open>\<open>np.mean\<close> of an array of integers accumulates and divides in floating point.\<close>

definition np_mean :: "nat list \<Rightarrow> real" where
  "np_mean xs = real (sum_list xs) / real (length xs)"

text \<open>
  \<open>np.linspace(start, stop, num)\<close>: \<open>arange(num) * step + start\<close> with
  \<open>step = (stop - start) / (num - 1)\<close>, the last element set to \<open>stop\<close>; a single
  element is \<open>start\<close>.
\<close>

definition np_linspace :: "real \<Rightarrow> real \<Rightarrow> nat \<Rightarrow> real list" where
  "np_linspace start stop num =
     (if num = 0 then []
      else if num = 1 then [start]
      else map (\<lambda>i. real i * ((stop - start) / real (num - 1)) + start) [0..<num - 1] @ [stop])"

text \<open>
  \<open>np.interp(x, xp, fp)\<close> for increasing \<open>xp\<close>: \<open>fp[0]\<close> left of the first point,
  \<open>fp[-1]\<close> from the last point on, and between two neighbouring points
  \<open>slope * (x - xp[j]) + fp[j]\<close> with \<open>slope = (fp[j+1] - fp[j]) / (xp[j+1] - xp[j])\<close>.
  \<open>interp_seg x p ps\<close> walks the points from \<open>p\<close> on, for \<open>x\<close> not left of \<open>p\<close>.
\<close>

fun interp_seg :: "real \<Rightarrow> real \<times> real \<Rightarrow> (real \<times> real) list \<Rightarrow> real" where
  "interp_seg x (x0, f0) [] = f0"
| "interp_seg x (x0, f0) ((x1, f1) # ps) =
     (if x < x1 then (f1 - f0) / (x1 - x0) * (x - x0) + f0
      else interp_seg x (x1, f1) ps)"

definition np_interp :: "real list \<Rightarrow> real list \<Rightarrow> real list \<Rightarrow> error + real list" where
  "np_interp xs xp fp =
     (case zip xp fp of
        [] \<Rightarrow> Inl ValueError
      | p # ps \<Rightarrow> Inr (map (\<lambda>x. if x < fst p then snd p else interp_seg x p ps) xs))"

text \<open>
  Python's \<open>round\<close> of a float to an integer rounds a tie to the even neighbour.
\<close>

definition py_round :: "real \<Rightarrow> int" where
  "py_round x =
     (let f = \<lfloor>x\<rfloor>; d = x - of_int f
      in if d < 1 / 2 then f else if 1 / 2 < d then f + 1 else if even f then f else f + 1)"

text \<open>
  The quotient of two floats in numpy: a division by zero raises nothing, it yields an
  infinity or, for \<open>0 / 0\<close>, NaN. \<open>np.clip\<close> maps an infinity to the bound on its side
  and keeps NaN (\<open>None\<close>).
\<close>

datatype xfloat = Finite real | PosInf | NegInf | NaN

definition np_divide :: "real \<Rightarrow> real \<Rightarrow> xfloat" where
  "np_divide a b =
     (if b \<noteq> 0 then Finite (a / b)
      else if 0 < a then PosInf else if a < 0 then NegInf else NaN)"

fun np_clip_x :: "xfloat \<Rightarrow> real \<Rightarrow> real \<Rightarrow> real option" where
  "np_clip_x (Finite v) lo hi = Some (np_clip v lo hi)"
| "np_clip_x PosInf lo hi = Some hi"
| "np_clip_x NegInf lo hi = Some (min lo hi)"
| "np_clip_x NaN lo hi = None"

text \<open>
  \<open>astype(np.uint8)\<close> of a float drops the fraction (rounds toward zero) and keeps
  the low eight bits.
\<close>

definition astype_uint8 :: "real \<Rightarrow> 8 word" where
  "astype_uint8 v = word_of_int (if 0 \<le> v then \<lfloor>v\<rfloor> else \<lceil>v\<rceil>)"

subsection \<open>bilinear\_sample\<close>

text \<open>
  \<open>bilinear_sample\<close> at one coordinate pair. The four reads \<open>img[y0, x0]\<close>,
  \<open>img[y0, x1]\<close>, \<open>img[y1, x0]\<close>, \<open>img[y1, x1]\<close> are checked against the shape.
\<close>

definition bilinear_sample :: "real ndarray \<Rightarrow> real \<Rightarrow> real \<Rightarrow> error + real list" where
  "bilinear_sample img x y =
     (let h = shape_h img; w = shape_w img;
          xc = np_clip x 0 (of_int (int w - 1));
          yc = np_clip y 0 (of_int (int h - 1));
          x0 = \<lfloor>xc\<rfloor>; y0 = \<lfloor>yc\<rfloor>;
          x1 = min (x0 + 1) (int w - 1);
          y1 = min (y0 + 1) (int h - 1);
          fx = xc - of_int x0; fy = yc - of_int y0;
          w00 = (1 - fx) * (1 - fy);
          w10 = fx * (1 - fy);
          w01 = (1 - fx) * fy;
          w11 = fx * fy
      in case getitem img y0 x0 of Inl e \<Rightarrow> Inl e | Inr p00 \<Rightarrow>
         case getitem img y0 x1 of Inl e \<Rightarrow> Inl e | Inr p10 \<Rightarrow>
         case getitem img y1 x0 of Inl e \<Rightarrow> Inl e | Inr p01 \<Rightarrow>
         case getitem img y1 x1 of Inl e \<Rightarrow> Inl e | Inr p11 \<Rightarrow>
           Inr (map (\<lambda>k. p00 ! k * w00 + p10 ! k * w10 + p01 ! k * w01 + p11 ! k * w11)
                  [0..<length p00]))"

text \<open>
  The call on the arrays \<open>src_xs\<close>, \<open>src_ys\<close> of one column. A NaN coordinate stays
  NaN through \<open>np.clip\<close> and \<open>np.floor\<close>; its cast to a 64-bit integer is the least
  integer (on x86-64), an index that no axis has: the read raises IndexError.
\<close>

definition bilinear_sample_vec ::
  "real ndarray \<Rightarrow> real option list \<Rightarrow> real list \<Rightarrow> error + real list list" where
  "bilinear_sample_vec img xs ys =
     collect (map (\<lambda>(x, y). case x of None \<Rightarrow> Inl IndexError | Some v \<Rightarrow> bilinear_sample img v y)
                (zip xs ys))"

subsection \<open>build\_red\_to\_green\_map\<close>

text \<open>
  The body of the loop over \<open>r\<close>: the mean of the greens where the red is \<open>r\<close>, or NaN.
\<close>

definition red_mean :: "nat list \<Rightarrow> nat list \<Rightarrow> nat \<Rightarrow> real option" where
  "red_mean red_channel green_channel r =
     (let mask = map (\<lambda>v. v = r) red_channel
      in if (\<exists>b \<in> set mask. b)
         then Some (np_mean (map snd (filter fst (zip mask green_channel))))
         else None)"

definition red_means :: "nat list \<Rightarrow> nat list \<Rightarrow> real option list" where
  "red_means red_channel green_channel = map (red_mean red_channel green_channel) [0..<256]"

text \<open>The part after the loop: interpolate the missing values, or fall back to the ramp.\<close>

definition interpolate_missing :: "real option list \<Rightarrow> error + real list" where
  "interpolate_missing red_to_green =
     (let valid_mask = map (\<lambda>v. v \<noteq> None) red_to_green
      in if (\<exists>b \<in> set valid_mask. b) \<and> \<not> (\<forall>b \<in> set valid_mask. b) then
           (let valid_indices = filter (\<lambda>i. valid_mask ! i) [0..<length valid_mask];
                valid_values = map the (map snd (filter fst (zip valid_mask red_to_green)));
                all_indices = [0..<256]
            in np_interp (map real all_indices) (map real valid_indices) valid_values)
         else if \<not> (\<exists>b \<in> set valid_mask. b) then Inr (np_linspace 0 255 256)
         else Inr (map the red_to_green))"

definition build_red_to_green_map :: "nat ndarray \<Rightarrow> error + real list" where
  "build_red_to_green_map erosion =
     (case channel_flat erosion 0 of Inl e \<Rightarrow> Inl e | Inr red_channel \<Rightarrow>
      case channel_flat erosion 1 of Inl e \<Rightarrow> Inl e | Inr green_channel \<Rightarrow>
        interpolate_missing (red_means red_channel green_channel))"

subsection \<open>remap\_gradient\<close>

text \<open>The values of one output column, named as the local variables of the loop body.\<close>

definition attack :: "nat \<Rightarrow> nat \<Rightarrow> real" where
  "attack grad_w col = (if grad_w > 1 then real col / real (grad_w - 1) else 1 / 2)"

definition red_value :: "nat \<Rightarrow> nat \<Rightarrow> int" where
  "red_value grad_w col = np_clip_int (py_round (255 * (1 - attack grad_w col))) 0 255"

definition key_press :: "real \<Rightarrow> real \<Rightarrow> real" where
  "key_press fade_in_duration att = fade_in_duration * att"

text \<open>\<open>key_release\<close> before and after the guard of the edge case.\<close>

definition key_release_raw :: "real \<Rightarrow> real \<Rightarrow> real \<Rightarrow> real" where
  "key_release_raw fade_out_duration animation_duration green_value =
     (let fade_out_start = animation_duration - fade_out_duration;
          release = green_value / 255
      in fade_out_start + release * fade_out_duration)"

definition key_release :: "real \<Rightarrow> real \<Rightarrow> real \<Rightarrow> real \<Rightarrow> real \<Rightarrow> real" where
  "key_release fade_in_duration fade_out_duration animation_duration att green_value =
     (let kp = key_press fade_in_duration att;
          kr = key_release_raw fade_out_duration animation_duration green_value
      in if kr \<le> kp + 1 / 1000 then kp + 1 / 1000 else kr)"

definition src_x :: "nat \<Rightarrow> real \<Rightarrow> real \<Rightarrow> real \<Rightarrow> real \<Rightarrow> real option" where
  "src_x grad_w animation_duration kp kr normalized_time =
     (let global_time = kp + normalized_time * (kr - kp)
      in map_option (\<lambda>v. v * of_int (int grad_w - 1))
           (np_clip_x (np_divide global_time animation_duration) 0 1))"

definition src_y :: "nat \<Rightarrow> real \<Rightarrow> real" where
  "src_y grad_h normalized_time = normalized_time * of_int (int grad_h - 1)"

text \<open>The body of the loop over \<open>col\<close>: the sampled column, one pixel for each row.\<close>

definition remap_column ::
  "real ndarray \<Rightarrow> real list \<Rightarrow> real \<Rightarrow> real \<Rightarrow> real \<Rightarrow> nat \<Rightarrow> error + real list list" where
  "remap_column gradient red_to_green fade_in_duration fade_out_duration animation_duration col =
     (let grad_h = shape_h gradient; grad_w = shape_w gradient;
          att = attack grad_w col
      in case getitem1 red_to_green (red_value grad_w col) of Inl e \<Rightarrow> Inl e | Inr green_value \<Rightarrow>
         (let kp = key_press fade_in_duration att;
              kr = key_release fade_in_duration fade_out_duration animation_duration att green_value;
              normalized_times = np_linspace 0 1 grad_h;
              src_xs = map (src_x grad_w animation_duration kp kr) normalized_times;
              src_ys = map (src_y grad_h) normalized_times
          in bilinear_sample_vec gradient src_xs src_ys))"

text \<open>
  The array \<open>result\<close> after the loop: column \<open>col\<close> of it is the sampled column.
\<close>

definition remap_result ::
  "real ndarray \<Rightarrow> real list \<Rightarrow> real \<Rightarrow> real \<Rightarrow> real \<Rightarrow> error + real ndarray" where
  "remap_result gradient red_to_green fade_in_duration fade_out_duration animation_duration =
     (case collect (map (remap_column gradient red_to_green fade_in_duration fade_out_duration
                           animation_duration) [0..<shape_w gradient]) of
        Inl e \<Rightarrow> Inl e
      | Inr cols \<Rightarrow>
          Inr (case gradient of
                 Arr2 h w rows \<Rightarrow>
                   Arr2 h w (map (\<lambda>y. map (\<lambda>x. cols ! x ! y ! 0) [0..<w]) [0..<h])
               | Arr3 h w c rows \<Rightarrow>
                   Arr3 h w c (map (\<lambda>y. map (\<lambda>x. cols ! x ! y) [0..<w]) [0..<h])))"

text \<open>
  The resampler on a table that is already built: the loop and the final
  \<open>np.clip(result, 0, 255).astype(np.uint8)\<close>.
\<close>

definition remap ::
  "real ndarray \<Rightarrow> real list \<Rightarrow> real \<Rightarrow> real \<Rightarrow> real \<Rightarrow> error + 8 word ndarray" where
  "remap gradient red_to_green fade_in_duration fade_out_duration animation_duration =
     (case remap_result gradient red_to_green fade_in_duration fade_out_duration
             animation_duration of
        Inl e \<Rightarrow> Inl e
      | Inr result \<Rightarrow> Inr (map_ndarray (\<lambda>v. astype_uint8 (np_clip v 0 255)) result))"

definition remap_gradient ::
  "real ndarray \<Rightarrow> nat ndarray \<Rightarrow> real \<Rightarrow> real \<Rightarrow> real \<Rightarrow> error + 8 word ndarray" where
  "remap_gradient gradient erosion fade_in_duration fade_out_duration animation_duration =
     (case build_red_to_green_map erosion of
        Inl e \<Rightarrow> Inl e
      | Inr red_to_green \<Rightarrow>
          remap gradient red_to_green fade_in_duration fade_out_duration animation_duration)"

subsection \<open>Notions used to state the properties\<close>

text \<open>
  The sample points that \<open>interpolate_missing\<close> hands to \<open>np.interp\<close>: the resolved
  indices of the table, in increasing order, each with its value.
\<close>

definition valid_points :: "real option list \<Rightarrow> (real \<times> real) list" where
  "valid_points m =
     map (\<lambda>i. (real i, the (m ! i))) (filter (\<lambda>i. m ! i \<noteq> None) [0..<length m])"

text \<open>
  The words of the specification for the table: the samples of a red value \<open>r\<close> are the
  pixels whose red channel is \<open>r\<close> (as positions, row by row), and an entry with samples
  is the arithmetic mean of their green values.
\<close>

definition pixels :: "'a ndarray \<Rightarrow> (nat \<times> nat) list" where
  "pixels img = List.product [0..<shape_h img] [0..<shape_w img]"

definition samples :: "nat ndarray \<Rightarrow> nat \<Rightarrow> (nat \<times> nat) list" where
  "samples erosion r = filter (\<lambda>(y, x). elem erosion y x 0 = r) (pixels erosion)"

definition green_mean :: "nat ndarray \<Rightarrow> nat \<Rightarrow> real" where
  "green_mean erosion r =
     sum_list (map (\<lambda>(y, x). real (elem erosion y x 1)) (samples erosion r))
       / real (length (samples erosion r))"

section \<open>Auxiliary lemmas\<close>

subsection \<open>Lists of results, linspace and interp\<close>

lemma collect_map_Inr:
  "(\<And>x. x \<in> set xs \<Longrightarrow> F x = Inr (G x)) \<Longrightarrow> collect (map F xs) = Inr (map G xs)"
  by (induction xs) auto

lemma collect_InrD:
  "collect rs = Inr vs \<Longrightarrow> rs = map Inr vs"
  by (induction rs arbitrary: vs) (auto split: sum.splits)

lemma collect_map_InrD:
  assumes "collect (map F xs) = Inr vs"
  shows "length vs = length xs" and "\<And>i. i < length xs \<Longrightarrow> F (xs ! i) = Inr (vs ! i)"
proof -
  have eq: "map F xs = map Inr vs" using assms by (rule collect_InrD)
  then show len: "length vs = length xs" by (metis length_map)
  fix i assume "i < length xs"
  then show "F (xs ! i) = Inr (vs ! i)"
    using eq len by (metis nth_map)
qed

lemma np_linspace_length: "length (np_linspace a b n) = n"
  by (simp add: np_linspace_def)

lemma np_linspace_nth:
  assumes "i < n"
  shows "np_linspace a b n ! i = (if n = 1 then a else a + real i * (b - a) / (real n - 1))"
proof (cases "n = 1")
  case True
  then show ?thesis using assms by (simp add: np_linspace_def)
next
  case False
  then have n: "2 \<le> n" using assms by simp
  show ?thesis
  proof (cases "i < n - 1")
    case True
    then show ?thesis using n False
      by (simp add: np_linspace_def nth_append of_nat_diff)
  next
    case False
    then have "i = n - 1" using assms by simp
    then show ?thesis using n \<open>n \<noteq> 1\<close>
      by (simp add: np_linspace_def nth_append of_nat_diff)
  qed
qed

lemma select_mask:
  "map snd (filter fst (zip (map P (map fr ps)) (map fg ps))) = map fg (filter (\<lambda>p. P (fr p)) ps)"
  by (induction ps) auto

lemma interp_seg_here:
  "sorted_wrt (<) (map fst (p # ps)) \<Longrightarrow> interp_seg (fst p) p ps = snd p"
  by (cases p; cases ps) auto

lemma interp_seg_segment:
  assumes "sorted_wrt (<) (map fst (p # ps))"
    and "p # ps = pre @ (x0, f0) # (x1, f1) # post"
    and "x0 \<le> x" and "x < x1"
  shows "interp_seg x p ps = (f1 - f0) / (x1 - x0) * (x - x0) + f0"
  using assms
proof (induction pre arbitrary: p ps)
  case Nil
  then show ?case by simp
next
  case (Cons q pre)
  then have p: "p = q" and ps: "ps = pre @ (x0, f0) # (x1, f1) # post" by simp_all
  obtain r rs where rrs: "ps = r # rs" using ps by (cases pre) auto
  obtain rx rf where r: "r = (rx, rf)" by (cases r)
  obtain qx qf where q: "q = (qx, qf)" by (cases q)
  have "r \<in> set (pre @ [(x0, f0)])" using ps rrs by (cases pre) auto
  then have "rx \<le> x0"
    using Cons.prems(1) ps r by (auto simp: sorted_wrt_append)
  then have "\<not> x < rx" using Cons.prems(3) by simp
  moreover have "interp_seg x r rs = (f1 - f0) / (x1 - x0) * (x - x0) + f0"
    using Cons.IH[of r rs] Cons.prems ps rrs by simp
  ultimately show ?case using p q r rrs by simp
qed

lemma interp_seg_right:
  "(\<And>q. q \<in> set ps \<Longrightarrow> fst q \<le> x) \<Longrightarrow> interp_seg x p ps = snd (last (p # ps))"
proof (induction ps arbitrary: p)
  case Nil
  then show ?case by (cases p) simp
next
  case (Cons r rs)
  obtain rx rf where r: "r = (rx, rf)" by (cases r)
  obtain px pf where p: "p = (px, pf)" by (cases p)
  have "\<not> x < rx" using Cons.prems[of r] r by simp
  then show ?case using Cons p r by simp
qed

lemma convex_bound:
  fixes a b t :: real
  assumes "0 \<le> t" "t \<le> 1" "L \<le> a" "a \<le> U" "L \<le> b" "b \<le> U"
  shows "L \<le> (1 - t) * a + t * b" and "(1 - t) * a + t * b \<le> U"
proof -
  have "(1 - t) * L \<le> (1 - t) * a" "t * L \<le> t * b"
    using assms by (simp_all add: mult_left_mono)
  then have "(1 - t) * L + t * L \<le> (1 - t) * a + t * b" by linarith
  then show "L \<le> (1 - t) * a + t * b" by (simp add: algebra_simps)
  have "(1 - t) * a \<le> (1 - t) * U" "t * b \<le> t * U"
    using assms by (simp_all add: mult_left_mono)
  then have "(1 - t) * a + t * b \<le> (1 - t) * U + t * U" by linarith
  then show "(1 - t) * a + t * b \<le> U" by (simp add: algebra_simps)
qed

lemma interp_seg_bounds:
  assumes "sorted_wrt (<) (map fst (p # ps))" and "fst p \<le> x"
    and "\<And>q. q \<in> set (p # ps) \<Longrightarrow> L \<le> snd q \<and> snd q \<le> U"
  shows "L \<le> interp_seg x p ps \<and> interp_seg x p ps \<le> U"
  using assms
proof (induction ps arbitrary: p)
  case Nil
  then show ?case by (cases p) auto
next
  case (Cons r rs)
  obtain x1 f1 where r: "r = (x1, f1)" by (cases r)
  obtain x0 f0 where p: "p = (x0, f0)" by (cases p)
  have lt: "x0 < x1" using Cons.prems(1) p r by simp
  have b0: "L \<le> f0" "f0 \<le> U" using Cons.prems(3)[of p] p by simp_all
  have b1: "L \<le> f1" "f1 \<le> U" using Cons.prems(3)[of r] r by simp_all
  show ?case
  proof (cases "x < x1")
    case True
    define t where "t = (x - x0) / (x1 - x0)"
    have t: "0 \<le> t" "t \<le> 1" using lt True Cons.prems(2) p by (simp_all add: t_def)
    have "(f1 - f0) / (x1 - x0) * (x - x0) + f0 = (1 - t) * f0 + t * f1"
      by (simp add: t_def algebra_simps diff_divide_distrib)
    then show ?thesis using convex_bound[OF t b0 b1] True p r by simp
  next
    case False
    then have "L \<le> interp_seg x r rs \<and> interp_seg x r rs \<le> U"
      using Cons.IH[of r] Cons.prems r by simp
    then show ?thesis using False p r by simp
  qed
qed

subsection \<open>The table\<close>

lemma red_mean_None_iff: "red_mean reds greens r = None \<longleftrightarrow> r \<notin> set reds"
  by (auto simp: red_mean_def Let_def)

lemma length_red_means: "length (red_means reds greens) = 256"
  by (simp add: red_means_def)

lemma red_means_nth: "r < 256 \<Longrightarrow> red_means reds greens ! r = red_mean reds greens r"
  by (simp add: red_means_def)

lemma linspace_ramp: "i < 256 \<Longrightarrow> np_linspace 0 255 256 ! i = real i"
  using np_linspace_nth[of i 256 0 255] by simp

lemma interpolate_missing_none:
  assumes "\<And>v. v \<in> set m \<Longrightarrow> v = None"
  shows "interpolate_missing m = Inr (np_linspace 0 255 256)"
  using assms by (auto simp: interpolate_missing_def Let_def)

lemma interpolate_missing_all:
  assumes "m \<noteq> []" "\<And>v. v \<in> set m \<Longrightarrow> v \<noteq> None"
  shows "interpolate_missing m = Inr (map the m)"
  using assms by (cases m) (auto simp: interpolate_missing_def Let_def)

lemma mask_select: "map snd (filter fst (zip (map P m) m)) = filter P m"
  by (induction m) auto

lemma filter_by_index: "filter P m = map ((!) m) (filter (\<lambda>i. P (m ! i)) [0..<length m])"
proof -
  have "filter P m = filter P (map ((!) m) [0..<length m])" by (simp add: map_nth)
  also have "\<dots> = map ((!) m) (filter (\<lambda>i. P (m ! i)) [0..<length m])"
    by (simp add: filter_map o_def)
  finally show ?thesis .
qed

lemma mask_indices:
  "filter (\<lambda>i. map P m ! i) [0..<length (map P m)] = filter (\<lambda>i. P (m ! i)) [0..<length m]"
  by (rule filter_cong) auto

lemma zip_valid:
  "zip (map real (filter (\<lambda>i. map (\<lambda>v. v \<noteq> None) m ! i) [0..<length (map (\<lambda>v. v \<noteq> None) m)]))
       (map the (map snd (filter fst (zip (map (\<lambda>v. v \<noteq> None) m) m))))
   = valid_points m"
proof -
  define P :: "real option \<Rightarrow> bool" where "P = (\<lambda>v. v \<noteq> None)"
  define vi where "vi = filter (\<lambda>i. P (m ! i)) [0..<length m]"
  have a: "filter (\<lambda>i. map P m ! i) [0..<length (map P m)] = vi"
    unfolding vi_def by (rule mask_indices)
  have "map snd (filter fst (zip (map P m) m)) = filter P m" by (rule mask_select)
  also have "\<dots> = map ((!) m) vi" unfolding vi_def by (rule filter_by_index)
  finally have b: "map the (map snd (filter fst (zip (map P m) m))) = map (\<lambda>i. the (m ! i)) vi"
    by (simp only: map_map o_def)
  have "zip (map real vi) (map (\<lambda>i. the (m ! i)) vi) = map (\<lambda>i. (real i, the (m ! i))) vi"
    by (induction vi) simp_all
  then show ?thesis
    using a b unfolding P_def vi_def valid_points_def by (simp only:)
qed

lemma valid_points_nonempty: "Some v \<in> set m \<Longrightarrow> valid_points m \<noteq> []"
  by (auto simp: valid_points_def filter_empty_conv in_set_conv_nth)

lemma interpolate_missing_partial:
  assumes "Some v \<in> set m" and "None \<in> set m"
  obtains p ps where "valid_points m = p # ps"
    and "interpolate_missing m =
           Inr (map (\<lambda>x. if x < fst p then snd p else interp_seg x p ps) (map real [0..<256]))"
proof -
  obtain p ps where pps: "valid_points m = p # ps"
    using valid_points_nonempty[OF assms(1)] by (cases "valid_points m") auto
  have any: "\<exists>b\<in>set (map (\<lambda>v. v \<noteq> None) m). b" using assms(1) by force
  have nall: "\<not> (\<forall>b\<in>set (map (\<lambda>v. v \<noteq> None) m). b)" using assms(2) by force
  have "interpolate_missing m =
    np_interp (map real [0..<256])
      (map real (filter (\<lambda>i. map (\<lambda>v. v \<noteq> None) m ! i) [0..<length (map (\<lambda>v. v \<noteq> None) m)]))
      (map the (map snd (filter fst (zip (map (\<lambda>v. v \<noteq> None) m) m))))"
    unfolding interpolate_missing_def Let_def using any nall by (simp only: simp_thms if_True)
  also have "\<dots> = Inr (map (\<lambda>x. if x < fst p then snd p else interp_seg x p ps) (map real [0..<256]))"
    unfolding np_interp_def zip_valid pps by (simp only: list.case)
  finally show ?thesis using pps that by blast
qed

lemma interpolate_missing_total:
  assumes "length m = 256"
  shows "\<exists>t. interpolate_missing m = Inr t \<and> length t = 256"
proof (cases "\<exists>v. Some v \<in> set m")
  case False
  then have "\<And>v. v \<in> set m \<Longrightarrow> v = None" by (metis option.exhaust)
  then show ?thesis
    using interpolate_missing_none[of m] by (simp add: np_linspace_length)
next
  case True
  then obtain v where v: "Some v \<in> set m" by blast
  show ?thesis
  proof (cases "None \<in> set m")
    case True
    obtain p ps where "interpolate_missing m =
           Inr (map (\<lambda>x. if x < fst p then snd p else interp_seg x p ps) (map real [0..<256]))"
      by (rule interpolate_missing_partial[OF v True])
    then show ?thesis by (simp del: upt_rec_numeral)
  next
    case False
    then have "\<And>v. v \<in> set m \<Longrightarrow> v \<noteq> None" by metis
    moreover have "m \<noteq> []" using assms by auto
    ultimately show ?thesis using interpolate_missing_all[of m] assms by simp
  qed
qed

lemma build_Arr3:
  assumes "2 \<le> c"
  shows "build_red_to_green_map (Arr3 h w c rows) =
     interpolate_missing (red_means
       (map (\<lambda>(y, x). rows ! y ! x ! 0) (List.product [0..<h] [0..<w]))
       (map (\<lambda>(y, x). rows ! y ! x ! 1) (List.product [0..<h] [0..<w])))"
  using assms by (simp add: build_red_to_green_map_def)

lemma build_few_channels:
  assumes "channels erosion < 2"
  shows "build_red_to_green_map erosion = Inl IndexError"
  using assms by (cases erosion) (auto simp: build_red_to_green_map_def)

lemma build_total:
  assumes "2 \<le> channels erosion" 
  shows "\<exists>t. build_red_to_green_map erosion = Inr t \<and> length t = 256"
proof (cases erosion)
  case (Arr2 h w rows)
  then show ?thesis using assms by simp
next
  case (Arr3 h w c rows)
  then have "2 \<le> c" using assms by simp
  then show ?thesis
    unfolding Arr3 build_Arr3[OF \<open>2 \<le> c\<close>]
    by (intro interpolate_missing_total length_red_means)
qed

lemma set_red_channel:
  "set (map (\<lambda>(y, x). rows ! y ! x ! k) (List.product [0..<h] [0..<w]))
    = {v. \<exists>y<h. \<exists>x<w. v = rows ! y ! x ! k}"
  by (auto simp: image_iff) blast

lemma linspace_ramp_list: "np_linspace 0 255 256 = map real [0..<256]"
  by (rule nth_equalityI) (simp_all add: np_linspace_length linspace_ramp del: upt_rec_numeral)

lemma red_means_all_None:
  assumes "\<And>r. r < 256 \<Longrightarrow> r \<notin> set reds"
  shows "v \<in> set (red_means reds greens) \<Longrightarrow> v = None"
  using assms by (auto simp: red_means_def red_mean_None_iff simp del: upt_rec_numeral)

lemma sum_list_le_bound:
  fixes xs :: "nat list"
  assumes "\<And>v. v \<in> set xs \<Longrightarrow> v \<le> b"
  shows "sum_list xs \<le> b * length xs"
  using assms by (induction xs) (simp_all add: add_mono)

lemma np_mean_bounds:
  assumes "xs \<noteq> []" and "\<And>v. v \<in> set xs \<Longrightarrow> v \<le> b"
  shows "0 \<le> np_mean xs" and "np_mean xs \<le> real b"
proof -
  show "0 \<le> np_mean xs" by (simp add: np_mean_def)
  have "real (sum_list xs) \<le> real (b * length xs)"
    using sum_list_le_bound[OF assms(2)] of_nat_le_iff by blast
  moreover have "0 < real (length xs)" using assms(1) by simp
  ultimately show "np_mean xs \<le> real b"
    by (simp add: np_mean_def pos_divide_le_eq)
qed

lemma red_mean_select:
  "red_mean (map fr ps) (map fg ps) r =
     (if filter (\<lambda>p. fr p = r) ps = [] then None
      else Some (np_mean (map fg (filter (\<lambda>p. fr p = r) ps))))"
proof -
  have "map snd (filter fst (zip (map (\<lambda>v. v = r) (map fr ps)) (map fg ps)))
        = map fg (filter (\<lambda>p. fr p = r) ps)"
    by (rule select_mask)
  moreover have "(\<exists>b\<in>set (map (\<lambda>v. v = r) (map fr ps)). b) \<longleftrightarrow> filter (\<lambda>p. fr p = r) ps \<noteq> []"
    by (auto simp: filter_empty_conv)
  ultimately show ?thesis
    unfolding red_mean_def Let_def by simp
qed

lemma real_sum_list: "real (sum_list (map f xs)) = sum_list (map (\<lambda>x. real (f x)) xs)"
  by (induction xs) simp_all

lemma red_means_samples:
  assumes "r < 256"
  shows "red_means (map (\<lambda>(y, x). rows ! y ! x ! 0) (List.product [0..<h] [0..<w]))
                   (map (\<lambda>(y, x). rows ! y ! x ! 1) (List.product [0..<h] [0..<w])) ! r
         = (if samples (Arr3 h w c rows) r = [] then None
            else Some (green_mean (Arr3 h w c rows) r))"
proof -
  let ?ps = "List.product [0..<h] [0..<w]"
  let ?fr = "\<lambda>(y, x). rows ! y ! x ! 0"
  let ?fg = "\<lambda>(y, x). rows ! y ! x ! 1"
  have s: "samples (Arr3 h w c rows) r = filter (\<lambda>p. ?fr p = r) ?ps"
    unfolding samples_def pixels_def by (simp add: case_prod_unfold)
  have "np_mean (map ?fg (filter (\<lambda>p. ?fr p = r) ?ps)) = green_mean (Arr3 h w c rows) r"
    unfolding np_mean_def green_mean_def s real_sum_list by (simp add: case_prod_unfold)
  then show ?thesis
    unfolding red_means_nth[OF assms] red_mean_select s by simp
qed

lemma build_red_means:
  assumes "2 \<le> channels erosion"
  obtains m where "length m = 256"
    and "build_red_to_green_map erosion = interpolate_missing m"
    and "\<And>r. r < 256 \<Longrightarrow>
           m ! r = (if samples erosion r = [] then None else Some (green_mean erosion r))"
proof (cases erosion)
  case (Arr2 h w rows)
  then show ?thesis using assms by simp
next
  case (Arr3 h w c rows)
  then have c: "2 \<le> c" using assms by simp
  let ?m = "red_means (map (\<lambda>(y, x). rows ! y ! x ! 0) (List.product [0..<h] [0..<w]))
                      (map (\<lambda>(y, x). rows ! y ! x ! 1) (List.product [0..<h] [0..<w]))"
  have "length ?m = 256" by (rule length_red_means)
  moreover have "build_red_to_green_map erosion = interpolate_missing ?m"
    unfolding Arr3 by (rule build_Arr3[OF c])
  moreover have "?m ! r = (if samples erosion r = [] then None else Some (green_mean erosion r))"
    if "r < 256" for r
    unfolding Arr3 by (rule red_means_samples[OF that])
  ultimately show ?thesis using that by blast
qed

lemma valid_points_sorted: "sorted_wrt (<) (map fst (valid_points m))"
proof -
  have "map fst (valid_points m) = map real (filter (\<lambda>i. m ! i \<noteq> None) [0..<length m])"
    by (simp add: valid_points_def o_def)
  moreover have "sorted_wrt (<) (filter (\<lambda>i. m ! i \<noteq> None) [0..<length m])"
    by (rule sorted_wrt_filter) (rule sorted_wrt_upt)
  ultimately show ?thesis by (simp add: sorted_wrt_map)
qed

lemma valid_points_between:
  assumes "lo < hi" and "hi < length m" and "m ! lo = Some a" and "m ! hi = Some b"
    and "\<And>j. lo < j \<Longrightarrow> j < hi \<Longrightarrow> m ! j = None"
  shows "\<exists>pre post. valid_points m = pre @ (real lo, a) # (real hi, b) # post"
proof -
  let ?P = "\<lambda>i. m ! i \<noteq> None"
  have "[0..<length m] = [0..<lo] @ lo # [Suc lo..<hi] @ hi # [Suc hi..<length m]"
    using assms(1,2)
    by (metis Suc_leI le_add_diff_inverse less_imp_le_nat upt_add_eq_append upt_conv_Cons zero_le
        less_trans)
  moreover have "filter ?P [Suc lo..<hi] = []"
    using assms(5) by (auto simp: filter_empty_conv)
  ultimately have "filter ?P [0..<length m]
      = filter ?P [0..<lo] @ lo # hi # filter ?P [Suc hi..<length m]"
    using assms(3,4) by simp
  then show ?thesis
    unfolding valid_points_def using assms(3,4) by auto
qed

lemma valid_points_first:
  assumes "hi < length m" and "m ! hi = Some b" and "\<And>j. j < hi \<Longrightarrow> m ! j = None"
  shows "\<exists>post. valid_points m = (real hi, b) # post"
proof -
  let ?P = "\<lambda>i. m ! i \<noteq> None"
  have "[0..<length m] = [0..<hi] @ hi # [Suc hi..<length m]"
    using assms(1) by (metis le_add_diff_inverse less_imp_le_nat upt_add_eq_append upt_conv_Cons zero_le)
  moreover have "filter ?P [0..<hi] = []"
    using assms(3) by (auto simp: filter_empty_conv)
  ultimately have "filter ?P [0..<length m] = hi # filter ?P [Suc hi..<length m]"
    using assms(2) by simp
  then show ?thesis
    unfolding valid_points_def using assms(2) by auto
qed

lemma valid_points_last:
  assumes "lo < length m" and "m ! lo = Some a"
    and "\<And>j. lo < j \<Longrightarrow> j < length m \<Longrightarrow> m ! j = None"
  shows "\<exists>pre. valid_points m = pre @ [(real lo, a)]"
proof -
  let ?P = "\<lambda>i. m ! i \<noteq> None"
  have "[0..<length m] = [0..<lo] @ lo # [Suc lo..<length m]"
    using assms(1) by (metis le_add_diff_inverse less_imp_le_nat upt_add_eq_append upt_conv_Cons zero_le)
  moreover have "filter ?P [Suc lo..<length m] = []"
    using assms(3) by (auto simp: filter_empty_conv)
  ultimately have "filter ?P [0..<length m] = filter ?P [0..<lo] @ [lo]"
    using assms(2) by simp
  then show ?thesis
    unfolding valid_points_def using assms(2) by auto
qed

lemma valid_points_mem:
  assumes "i < length m" and "m ! i = Some v"
  shows "(real i, v) \<in> set (valid_points m)"
  using assms unfolding valid_points_def by force

lemma interp_at_knot:
  assumes "sorted_wrt (<) (map fst (p # ps))" and "(x0, f0) \<in> set (p # ps)"
  shows "\<not> x0 < fst p \<and> interp_seg x0 p ps = f0"
  using assms
proof (induction ps arbitrary: p)
  case Nil
  then show ?case by auto
next
  case (Cons r rs)
  show ?case
  proof (cases "(x0, f0) = p")
    case True
    then show ?thesis using interp_seg_here[OF Cons.prems(1)] by auto
  next
    case False
    then have mem: "(x0, f0) \<in> set (r # rs)" using Cons.prems(2) by simp
    have srt: "sorted_wrt (<) (map fst (r # rs))" using Cons.prems(1) by simp
    have ih: "\<not> x0 < fst r \<and> interp_seg x0 r rs = f0" by (rule Cons.IH[OF srt mem])
    have "fst p < fst r" using Cons.prems(1) by simp
    then show ?thesis using ih by (cases p; cases r) auto
  qed
qed

lemma sorted_pre_le:
  fixes pre post :: "(real \<times> real) list"
  assumes "sorted_wrt (<) (map fst (pre @ (x0, f0) # post))" and "q \<in> set (pre @ [(x0, f0)])"
  shows "fst q \<le> x0"
  using assms by (auto simp: sorted_wrt_append)

lemma table_partial_entry:
  assumes "Some v \<in> set m" and "None \<in> set m" and "interpolate_missing m = Inr t" and "i < 256"
  obtains p ps where "valid_points m = p # ps"
    and "t ! i = (if real i < fst p then snd p else interp_seg (real i) p ps)"
proof -
  obtain p ps where pps: "valid_points m = p # ps"
    and im: "interpolate_missing m =
           Inr (map (\<lambda>x. if x < fst p then snd p else interp_seg x p ps) (map real [0..<256]))"
    by (rule interpolate_missing_partial[OF assms(1,2)])
  have "t = map (\<lambda>x. if x < fst p then snd p else interp_seg x p ps) (map real [0..<256])"
    using im assms(3) by simp
  then have "t ! i = (if real i < fst p then snd p else interp_seg (real i) p ps)"
    using assms(4) by (simp del: upt_rec_numeral)
  then show ?thesis using pps that by blast
qed

lemma table_resolved:
  assumes "length m = 256" and "interpolate_missing m = Inr t" and "r < 256" and "m ! r = Some v"
  shows "t ! r = v"
proof (cases "None \<in> set m")
  case False
  then have "\<And>v. v \<in> set m \<Longrightarrow> v \<noteq> None" by metis
  moreover have "m \<noteq> []" using assms(1) by auto
  ultimately have "t = map the m" using interpolate_missing_all[of m] assms(2) by simp
  then show ?thesis using assms(1,3,4) by simp
next
  case True
  have s: "Some v \<in> set m" using assms(1,3,4) by (metis nth_mem)
  obtain p ps where pps: "valid_points m = p # ps"
    and t: "t ! r = (if real r < fst p then snd p else interp_seg (real r) p ps)"
    by (rule table_partial_entry[OF s True assms(2,3)])
  have "(real r, v) \<in> set (p # ps)"
    using valid_points_mem[of r m v] assms(1,3,4) pps by simp
  moreover have "sorted_wrt (<) (map fst (p # ps))"
    using valid_points_sorted[of m] pps by simp
  ultimately have "\<not> real r < fst p \<and> interp_seg (real r) p ps = v"
    by (intro interp_at_knot)
  then show ?thesis using t by simp
qed

lemma table_between:
  assumes "length m = 256" and "interpolate_missing m = Inr t"
    and "lo < hi" and "hi < 256" and "lo \<le> i" and "i \<le> hi"
    and "m ! lo = Some a" and "m ! hi = Some b"
    and "\<And>j. lo < j \<Longrightarrow> j < hi \<Longrightarrow> m ! j = None"
  shows "t ! i = a + (b - a) * (real i - real lo) / (real hi - real lo)"
proof -
  consider "i = hi" | "i = lo" | "lo < i" "i < hi" using assms(5,6) by linarith
  then show ?thesis
  proof cases
    case 1
    have "t ! hi = b" by (rule table_resolved[OF assms(1,2,4,8)])
    then show ?thesis using 1 assms(3) by simp
  next
    case 2
    have "t ! lo = a" using table_resolved[OF assms(1,2) _ assms(7)] assms(3,4) by simp
    then show ?thesis using 2 by simp
  next
    case 3
    have i: "i < 256" using 3 assms(4) by simp
    have "m ! i = None" using assms(9) 3 by simp
    then have n: "None \<in> set m" using assms(1) i by (metis nth_mem)
    have s: "Some a \<in> set m" using assms(1,3,4,7) by (metis nth_mem less_trans)
    obtain p ps where pps: "valid_points m = p # ps"
      and t: "t ! i = (if real i < fst p then snd p else interp_seg (real i) p ps)"
      by (rule table_partial_entry[OF s n assms(2) i])
    obtain pre post where dec: "valid_points m = pre @ (real lo, a) # (real hi, b) # post"
      using valid_points_between[OF assms(3) _ assms(7,8,9)] assms(1,4) by auto
    have srt: "sorted_wrt (<) (map fst (p # ps))"
      using valid_points_sorted[of m] pps by simp
    have srt': "sorted_wrt (<) (map fst (pre @ (real lo, a) # (real hi, b) # post))"
      using srt pps dec by simp
    have "p \<in> set (pre @ [(real lo, a)])" using dec pps by (cases pre) auto
    then have "fst p \<le> real lo" by (rule sorted_pre_le[OF srt'])
    then have nl: "\<not> real i < fst p" using 3 by simp
    have "interp_seg (real i) p ps = (b - a) / (real hi - real lo) * (real i - real lo) + a"
      using interp_seg_segment[OF srt, of pre "real lo" a "real hi" b post "real i"] pps dec 3
      by simp
    then show ?thesis using t nl by simp
  qed
qed

lemma table_left:
  assumes "length m = 256" and "interpolate_missing m = Inr t"
    and "hi < 256" and "i \<le> hi" and "m ! hi = Some b"
    and "\<And>j. j < hi \<Longrightarrow> m ! j = None"
  shows "t ! i = b"
proof (cases "i = hi")
  case True
  then show ?thesis using table_resolved[OF assms(1,2,3,5)] by simp
next
  case False
  then have lt: "i < hi" using assms(4) by simp
  then have i: "i < 256" using assms(3) by simp
  have n: "None \<in> set m" using assms(6)[OF lt] assms(1) i by (metis nth_mem)
  have s: "Some b \<in> set m" using assms(1,3,5) by (metis nth_mem)
  obtain p ps where pps: "valid_points m = p # ps"
    and t: "t ! i = (if real i < fst p then snd p else interp_seg (real i) p ps)"
    by (rule table_partial_entry[OF s n assms(2) i])
  obtain post where "valid_points m = (real hi, b) # post"
    using valid_points_first[OF _ assms(5,6)] assms(1,3) by auto
  then have "p = (real hi, b)" using pps by simp
  then show ?thesis using t lt by simp
qed

lemma table_right:
  assumes "length m = 256" and "interpolate_missing m = Inr t"
    and "lo \<le> i" and "i < 256" and "m ! lo = Some a"
    and "\<And>j. lo < j \<Longrightarrow> j < 256 \<Longrightarrow> m ! j = None"
  shows "t ! i = a"
proof (cases "i = lo")
  case True
  then show ?thesis using table_resolved[OF assms(1,2) _ assms(5)] assms(4) by simp
next
  case False
  then have lt: "lo < i" using assms(3) by simp
  then have lo: "lo < 256" using assms(4) by simp
  have n: "None \<in> set m" using assms(6)[OF lt assms(4)] assms(1,4) by (metis nth_mem)
  have s: "Some a \<in> set m" using assms(1,5) lo by (metis nth_mem)
  obtain p ps where pps: "valid_points m = p # ps"
    and t: "t ! i = (if real i < fst p then snd p else interp_seg (real i) p ps)"
    by (rule table_partial_entry[OF s n assms(2,4)])
  obtain pre where dec: "valid_points m = pre @ [(real lo, a)]"
    using valid_points_last[OF _ assms(5)] assms(1,6) lo by auto
  have srt: "sorted_wrt (<) (map fst (pre @ (real lo, a) # []))"
    using valid_points_sorted[of m] dec by simp
  have le: "fst q \<le> real lo" if "q \<in> set (p # ps)" for q
  proof -
    have "q \<in> set (pre @ [(real lo, a)])" using that pps dec by simp
    then show ?thesis by (rule sorted_pre_le[OF srt])
  qed
  have "\<not> real i < fst p" using le[of p] lt by simp
  moreover have "interp_seg (real i) p ps = snd (last (p # ps))"
  proof (rule interp_seg_right)
    fix q assume "q \<in> set ps"
    then show "fst q \<le> real i" using le[of q] lt by simp
  qed
  moreover have "last (p # ps) = (real lo, a)" using pps dec by (metis last_snoc)
  ultimately show ?thesis using t by simp
qed

lemma samples_mem:
  "(y, x) \<in> set (samples erosion r) \<longleftrightarrow>
     y < shape_h erosion \<and> x < shape_w erosion \<and> elem erosion y x 0 = r"
  by (auto simp: samples_def pixels_def)

lemma sum_list_real_bounds:
  fixes g :: "'a \<Rightarrow> real"
  assumes "\<And>p. p \<in> set ps \<Longrightarrow> L \<le> g p \<and> g p \<le> U"
  shows "L * real (length ps) \<le> sum_list (map g ps) \<and> sum_list (map g ps) \<le> U * real (length ps)"
  using assms
proof (induction ps)
  case Nil
  then show ?case by simp
next
  case (Cons p ps)
  have "L \<le> g p \<and> g p \<le> U" using Cons.prems[of p] by simp
  moreover have "L * real (length ps) \<le> sum_list (map g ps) \<and>
      sum_list (map g ps) \<le> U * real (length ps)"
    using Cons.IH Cons.prems by simp
  ultimately show ?case by (simp add: algebra_simps)
qed

lemma green_mean_bounds:
  assumes "samples erosion r \<noteq> []"
    and "\<And>y x. y < shape_h erosion \<Longrightarrow> x < shape_w erosion \<Longrightarrow>
           L \<le> real (elem erosion y x 1) \<and> real (elem erosion y x 1) \<le> U"
  shows "L \<le> green_mean erosion r \<and> green_mean erosion r \<le> U"
proof -
  let ?g = "\<lambda>(y, x). real (elem erosion y x 1)"
  let ?ps = "samples erosion r"
  have "L \<le> ?g p \<and> ?g p \<le> U" if "p \<in> set ?ps" for p
  proof -
    obtain y x where p: "p = (y, x)" by (cases p)
    then have "y < shape_h erosion" "x < shape_w erosion" using that by (simp_all add: samples_mem)
    then have "L \<le> real (elem erosion y x 1) \<and> real (elem erosion y x 1) \<le> U" by (rule assms(2))
    then show ?thesis unfolding p by (simp only: prod.case)
  qed
  then have b: "L * real (length ?ps) \<le> sum_list (map ?g ?ps) \<and>
      sum_list (map ?g ?ps) \<le> U * real (length ?ps)"
    by (rule sum_list_real_bounds)
  have pos: "0 < real (length ?ps)" using assms(1) by simp
  show ?thesis
    unfolding green_mean_def using b pos by (simp add: pos_le_divide_eq pos_divide_le_eq)
qed

lemma valid_points_value:
  assumes "q \<in> set (valid_points m)"
  shows "\<exists>j<length m. m ! j = Some (snd q)"
  using assms unfolding valid_points_def by auto

lemma table_bounds:
  assumes "length m = 256" and "interpolate_missing m = Inr t" and "i < 256"
    and "\<And>j v. j < 256 \<Longrightarrow> m ! j = Some v \<Longrightarrow> 0 \<le> v \<and> v \<le> 255"
  shows "0 \<le> t ! i \<and> t ! i \<le> 255"
proof (cases "\<exists>v. Some v \<in> set m")
  case False
  then have "\<And>v. v \<in> set m \<Longrightarrow> v = None" by (metis option.exhaust)
  then have "t = np_linspace 0 255 256"
    using interpolate_missing_none[of m] assms(2) by simp
  then show ?thesis using linspace_ramp[OF assms(3)] assms(3) by simp
next
  case True
  then obtain v where v: "Some v \<in> set m" by blast
  show ?thesis
  proof (cases "None \<in> set m")
    case False
    then have "m ! i \<noteq> None" using assms(1,3) by (metis nth_mem)
    then obtain u where u: "m ! i = Some u" by blast
    have "t ! i = u" by (rule table_resolved[OF assms(1,2,3) u])
    then show ?thesis using assms(4)[OF assms(3) u] by simp
  next
    case True
    obtain p ps where pps: "valid_points m = p # ps"
      and t: "t ! i = (if real i < fst p then snd p else interp_seg (real i) p ps)"
      by (rule table_partial_entry[OF v True assms(2,3)])
    have b: "0 \<le> snd q \<and> snd q \<le> 255" if "q \<in> set (p # ps)" for q
      using valid_points_value[of q m] that pps assms(1,4) by auto
    show ?thesis
    proof (cases "real i < fst p")
      case True
      then show ?thesis using t b[of p] by simp
    next
      case False
      have srt: "sorted_wrt (<) (map fst (p # ps))"
        using valid_points_sorted[of m] pps by simp
      have "0 \<le> interp_seg (real i) p ps \<and> interp_seg (real i) p ps \<le> 255"
        using interp_seg_bounds[OF srt, of "real i" 0 255] False b by simp
      then show ?thesis using t False by simp
    qed
  qed
qed

lemma green_mean_const:
  assumes "samples erosion r \<noteq> []"
    and "\<And>y x. y < shape_h erosion \<Longrightarrow> x < shape_w erosion \<Longrightarrow> elem erosion y x 0 = r \<Longrightarrow>
           elem erosion y x 1 = g"
  shows "green_mean erosion r = real g"
proof -
  let ?ps = "samples erosion r"
  have eq: "map (\<lambda>(y, x). real (elem erosion y x 1)) ?ps = map (\<lambda>p. real g) ?ps"
  proof (rule map_cong[OF refl])
    fix p assume mem: "p \<in> set ?ps"
    obtain y x where p: "p = (y, x)" by (cases p)
    then have "y < shape_h erosion" "x < shape_w erosion" "elem erosion y x 0 = r"
      using mem by (simp_all add: samples_mem)
    then have "elem erosion y x 1 = g" by (rule assms(2))
    then show "(case p of (y, x) \<Rightarrow> real (elem erosion y x 1)) = real g"
      unfolding p by (simp only: prod.case)
  qed
  have "sum_list (map (\<lambda>p. real g) ps) = real g * real (length ps)" for ps :: "(nat \<times> nat) list"
    by (induction ps) (simp_all add: algebra_simps)
  then show ?thesis
    unfolding green_mean_def eq using assms(1) by simp
qed

section \<open>Properties of the table (build\_red\_to\_green\_map)\<close>

text \<open>
  Claim C9. An erosion array with fewer than two channels makes
  \<open>build_red_to_green_map\<close> fail: the slice \<open>erosion[:, :, 0]\<close> or \<open>erosion[:, :, 1]\<close>
  raises IndexError, the failure that the specification files under InvalidInput. This is
  the only failure: with two channels or more, whatever the height and the width, the
  function returns a table of 256 entries (in particular \<open>np.interp\<close> never sees an empty
  list of points). The function is a value of its argument alone.
\<close>

theorem build_table_failure_mode:
  "(channels erosion < 2 \<longrightarrow> build_red_to_green_map erosion = Inl IndexError) \<and>
   (2 \<le> channels erosion \<longrightarrow>
      (\<exists>table. build_red_to_green_map erosion = Inr table \<and> length table = 256))"
  using build_few_channels[of erosion] build_total[of erosion] by blast

theorem build_table_failure_mode_witness:
  "build_red_to_green_map (Arr2 1 1 [[7]]) = Inl IndexError \<and>
   build_red_to_green_map (Arr3 1 1 1 [[[7]]]) = Inl IndexError \<and>
   (\<exists>table. build_red_to_green_map (Arr3 1 1 2 [[[3, 9]]]) = Inr table \<and> length table = 256)"
  using build_table_failure_mode[of "Arr2 1 1 [[7]]"]
    build_table_failure_mode[of "Arr3 1 1 1 [[[7]]]"]
    build_table_failure_mode[of "Arr3 1 1 2 [[[3, 9]]]"]
  by simp

text \<open>
  Claim C4. When no pixel of the erosion texture has a red value in 0..255, as in an
  empty image (height or width 0), the table is the identity ramp: entry \<open>i\<close> is \<open>i\<close>.
\<close>

theorem build_table_no_samples:
  assumes "2 \<le> channels erosion"
    and "\<forall>y < shape_h erosion. \<forall>x < shape_w erosion. 256 \<le> elem erosion y x 0"
  shows "build_red_to_green_map erosion = Inr (map real [0..<256])"
proof (cases erosion)
  case (Arr2 h w rows)
  then show ?thesis using assms(1) by simp
next
  case (Arr3 h w c rows)
  then have c: "2 \<le> c" using assms(1) by simp
  let ?reds = "map (\<lambda>(y, x). rows ! y ! x ! 0) (List.product [0..<h] [0..<w])"
  have "r \<notin> set ?reds" if "r < 256" for r
    using assms(2) that unfolding Arr3 set_red_channel by fastforce
  then have "interpolate_missing (red_means ?reds greens) = Inr (np_linspace 0 255 256)" for greens
    by (intro interpolate_missing_none red_means_all_None)
  then show ?thesis
    unfolding Arr3 build_Arr3[OF c] linspace_ramp_list by simp
qed

theorem build_table_no_samples_witness:
  "build_red_to_green_map (Arr3 0 0 2 []) = Inr (map real [0..<256]) \<and>
   map real [0..<256] ! 200 = 200"
  using build_table_no_samples[of "Arr3 0 0 2 []"] by (simp del: upt_rec_numeral)

end
